theory Spec2Isabelle
  imports Main
begin

section \<open>Data model of the RSS reader (rss.go)\<close>

text \<open>
  A \<open>time.Time\<close> is modelled by the instant it denotes: the number of nanoseconds since
  the zero \<open>time.Time\<close> (January 1, year 1, 00:00:00 UTC), as an unbounded integer.
  \<open>IsZero\<close>, \<open>Before\<close> and \<open>After\<close> compare instants, as Go does for the times used
  here. A \<open>time.Duration\<close> is a number of nanoseconds.
\<close>

type_synonym instant = int

type_synonym duration = int

definition IsZero :: "instant \<Rightarrow> bool" where
  "IsZero t = (t = 0)"

definition Before :: "instant \<Rightarrow> instant \<Rightarrow> bool" where
  "Before t u = (t < u)"

definition After :: "instant \<Rightarrow> instant \<Rightarrow> bool" where
  "After t u = (u < t)"

text \<open>\<open>t.Add(d)\<close>, on instants.\<close>

definition Add_duration :: "instant \<Rightarrow> duration \<Rightarrow> instant" where
  "Add_duration t d = t + d"

text \<open>\<open>type FeedItem struct\<close>.\<close>

record FeedItem =
  Feed :: string
  Title :: string
  Link :: string
  Published :: instant
  Added :: instant
  ID :: string
  Read :: bool
  Starred :: bool

text \<open>\<open>type FeedMeta struct\<close>; its \<open>Title\<close> field is \<open>MetaTitle\<close> here.\<close>

record FeedMeta =
  URL :: string
  MetaTitle :: string
  Updated :: instant
  Etag :: string
  LastFetch :: instant

text \<open>\<open>type FeedBucket struct\<close>.\<close>

record FeedBucket =
  Items :: "FeedItem list"
  Meta :: FeedMeta

text \<open>
  Errors are values. \<open>Wrap u e\<close> is \<open>fmt.Errorf("%s: %w", u, e)\<close>; every other
  error comes from the operating system, the network or a library and is named by a string.
\<close>

datatype error = Err string | Wrap string error

text \<open>
  A call returns a value, never returns because it waits for a lock or a permit that
  nobody will release, or panics.
\<close>

datatype 'a outcome = Returned 'a | Blocked | Panicked

subsection \<open>sync.RWMutex\<close>

text \<open>
  The state of a \<open>sync.RWMutex\<close>: whether a writer holds it, and how many readers do.
  \<open>Lock\<close> and \<open>RLock\<close> give \<open>None\<close> where the Go call waits. The lock is not
  reentrant: \<open>RLock\<close> waits while a writer holds the lock, whoever the writer is.
\<close>

record RWMutex =
  writer :: bool
  readers :: nat

definition unlocked :: RWMutex where
  "unlocked = \<lparr>writer = False, readers = 0\<rparr>"

definition Lock :: "RWMutex \<Rightarrow> RWMutex option" where
  "Lock m = (if writer m \<or> 0 < readers m then None else Some (m\<lparr>writer := True\<rparr>))"

definition Unlock :: "RWMutex \<Rightarrow> RWMutex" where
  "Unlock m = m\<lparr>writer := False\<rparr>"

definition RLock :: "RWMutex \<Rightarrow> RWMutex option" where
  "RLock m = (if writer m then None else Some (m\<lparr>readers := Suc (readers m)\<rparr>))"

definition RUnlock :: "RWMutex \<Rightarrow> RWMutex" where
  "RUnlock m = m\<lparr>readers := readers m - 1\<rparr>"

subsection \<open>The file system and encoding/json\<close>

text \<open>
  A path holds no file, a file with its bytes, or a file that \<open>os.ReadFile\<close> cannot
  read. The answers of the operating system to \<open>os.MkdirAll\<close>, \<open>os.WriteFile\<close> and
  \<open>os.Rename\<close> during one save are inputs of the model, as are \<open>json.MarshalIndent\<close>
  and \<open>json.Unmarshal\<close>, which are library code: \<open>unmarshalFeeds data m\<close> decodes into
  the map \<open>m\<close> and gives the error, if any, and the map afterwards. The network and
  the feed parser are outside the model too: \<open>fetchFeed os url\<close> is what
  \<open>fetchFeed(ctx, url)\<close> returns. \<open>range_order os keys\<close> is the order in which a
  \<open>range\<close> over a Go map with these keys visits them.
\<close>

datatype fsentry = Data string | Unreadable error

type_synonym filesys = "string \<rightharpoonup> fsentry"

type_synonym feedmap = "string \<rightharpoonup> FeedBucket"

record sys =
  mkdir_err :: "error option"
  write_err :: "error option"
  rename_err :: "error option"
  marshalFeeds :: "feedmap \<Rightarrow> error + string"
  unmarshalFeeds :: "string \<Rightarrow> feedmap \<Rightarrow> error option \<times> feedmap"
  marshalItems :: "FeedItem list \<Rightarrow> error + string"
  fetchFeed :: "string \<Rightarrow> error + FeedItem list"
  range_order :: "string list \<Rightarrow> string list"

section \<open>PersistentStore\<close>

text \<open>\<open>type PersistentStore struct\<close>.\<close>

record PersistentStore =
  mu :: RWMutex
  feeds :: feedmap
  path :: string
  maxAge :: duration

text \<open>The readings of \<open>time.Now()\<close> that one \<open>AddItems\<close> call takes, in order.\<close>

record clock =
  now_create :: instant
  now_cleanup :: instant
  now_meta :: instant

text \<open>
  \<open>PersistentStore.save\<close>. The deferred \<open>RUnlock\<close> runs at every return, and at none
  when \<open>RLock\<close> never returns. What a failed \<open>os.WriteFile\<close> leaves at the temporary
  path is not modelled: the file system is then returned as it was.
\<close>

definition save :: "sys \<Rightarrow> PersistentStore \<Rightarrow> filesys \<Rightarrow> error option outcome \<times> PersistentStore \<times> filesys" where
  "save os s fs =
     (case RLock (mu s) of
        None \<Rightarrow> (Blocked, s, fs)
      | Some m \<Rightarrow>
          (let s' = s\<lparr>mu := RUnlock m\<rparr> in
           case mkdir_err os of
             Some e \<Rightarrow> (Returned (Some e), s', fs)
           | None \<Rightarrow>
               (case marshalFeeds os (feeds s) of
                  Inl e \<Rightarrow> (Returned (Some e), s', fs)
                | Inr data \<Rightarrow>
                    (let tmpPath = path s @ ''.tmp'' in
                     case write_err os of
                       Some e \<Rightarrow> (Returned (Some e), s', fs)
                     | None \<Rightarrow>
                         (let fs1 = fs(tmpPath \<mapsto> Data data) in
                          case rename_err os of
                            Some e \<Rightarrow> (Returned (Some e), s', fs1)
                          | None \<Rightarrow> (Returned None, s', (fs1(tmpPath := None))(path s \<mapsto> Data data)))))))"

text \<open>\<open>PersistentStore.load\<close>.\<close>

definition load :: "sys \<Rightarrow> filesys \<Rightarrow> PersistentStore \<Rightarrow> error option outcome \<times> PersistentStore" where
  "load os fs s =
     (case Lock (mu s) of
        None \<Rightarrow> (Blocked, s)
      | Some m \<Rightarrow>
          (case fs (path s) of
             None \<Rightarrow> (Returned None, s\<lparr>mu := Unlock m\<rparr>)
           | Some (Unreadable e) \<Rightarrow> (Returned (Some e), s\<lparr>mu := Unlock m\<rparr>)
           | Some (Data data) \<Rightarrow>
               (case unmarshalFeeds os data (feeds s) of
                  (err, m') \<Rightarrow> (Returned err, s\<lparr>mu := Unlock m, feeds := m'\<rparr>))))"

text \<open>\<open>NewPersistentStore\<close>: \<open>Inl\<close> is \<open>return nil, err\<close>.\<close>

definition NewPersistentStore :: "sys \<Rightarrow> filesys \<Rightarrow> string \<Rightarrow> duration \<Rightarrow> (error + PersistentStore) outcome" where
  "NewPersistentStore os fs p age =
     (case load os fs \<lparr>mu = unlocked, feeds = Map.empty, path = p, maxAge = age\<rparr> of
        (Blocked, _) \<Rightarrow> Blocked
      | (Panicked, _) \<Rightarrow> Panicked
      | (Returned (Some e), _) \<Rightarrow> Returned (Inl e)
      | (Returned None, s) \<Rightarrow> Returned (Inr s))"

text \<open>
  The loop of \<open>AddItems\<close> that appends the candidates whose id is not in \<open>existing\<close>
  (the set of keys that \<open>existing\<close> maps to true), recording each id it appends.
\<close>

fun add_new :: "string set \<Rightarrow> FeedItem list \<Rightarrow> FeedItem list \<Rightarrow> FeedItem list" where
  "add_new existing [] acc = acc"
| "add_new existing (item # rest) acc =
     (if ID item \<in> existing then add_new existing rest acc
      else add_new (insert (ID item) existing) rest (acc @ [item]))"

text \<open>
  \<open>sort.SliceStable\<close> with \<open>Published.Before\<close> as the order: the stable sort by
  \<open>Published\<close>, which is \<open>sort_key Published\<close>.
\<close>

definition sort_published :: "FeedItem list \<Rightarrow> FeedItem list" where
  "sort_published xs = sort_key Published xs"

text \<open>\<open>PersistentStore.cleanupBucket\<close>, with the reading of \<open>time.Now()\<close> it takes.\<close>

definition cleanupBucket :: "PersistentStore \<Rightarrow> instant \<Rightarrow> FeedBucket \<Rightarrow> FeedBucket" where
  "cleanupBucket s now bucket =
     (if maxAge s \<le> 0 then bucket
      else
        (let cutoff = Add_duration now (- maxAge s) in
         bucket\<lparr>Items := filter (\<lambda>item. After (Published item) cutoff) (Items bucket)\<rparr>))"

text \<open>
  \<open>PersistentStore.AddItems\<close>. The bucket is changed in memory before \<open>save\<close> is called,
  so the store of the result holds the changed bucket whatever \<open>save\<close> does; the deferred
  \<open>Unlock\<close> runs only if \<open>save\<close> returns.
\<close>

definition AddItems :: "sys \<Rightarrow> clock \<Rightarrow> string \<Rightarrow> FeedItem list \<Rightarrow> PersistentStore \<Rightarrow> filesys \<Rightarrow> error option outcome \<times> PersistentStore \<times> filesys" where
  "AddItems os clk feedURL items s fs =
     (case Lock (mu s) of
        None \<Rightarrow> (Blocked, s, fs)
      | Some m \<Rightarrow>
          (let bucket0 = (case feeds s feedURL of
                            Some b \<Rightarrow> b
                          | None \<Rightarrow> \<lparr>Items = [],
                                     Meta = \<lparr>URL = feedURL, MetaTitle = [], Updated = 0,
                                             Etag = [], LastFetch = now_create clk\<rparr>\<rparr>);
               existing = set (map ID (Items bucket0));
               bucket1 = bucket0\<lparr>Items := add_new existing items (Items bucket0)\<rparr>;
               bucket2 = bucket1\<lparr>Items := sort_published (Items bucket1)\<rparr>;
               bucket3 = cleanupBucket s (now_cleanup clk) bucket2;
               meta1 = (Meta bucket3)\<lparr>LastFetch := now_meta clk\<rparr>;
               meta2 = (if items \<noteq> [] \<and> MetaTitle meta1 = [] then meta1\<lparr>MetaTitle := Feed (hd items)\<rparr> else meta1);
               bucket4 = bucket3\<lparr>Meta := meta2\<rparr>;
               s1 = s\<lparr>mu := m, feeds := (feeds s)(feedURL \<mapsto> bucket4)\<rparr>
           in case save os s1 fs of
                (Returned err, s2, fs2) \<Rightarrow> (Returned err, s2\<lparr>mu := Unlock (mu s2)\<rparr>, fs2)
              | (Blocked, s2, fs2) \<Rightarrow> (Blocked, s2, fs2)
              | (Panicked, s2, fs2) \<Rightarrow> (Panicked, s2\<lparr>mu := Unlock (mu s2)\<rparr>, fs2)))"

text \<open>The loop of \<open>GetItems\<close> over the bucket, \<open>result\<close> being the slice built so far.\<close>

fun collect_since :: "instant \<Rightarrow> FeedItem list \<Rightarrow> FeedItem list \<Rightarrow> FeedItem list" where
  "collect_since since [] result = result"
| "collect_since since (item # rest) result =
     (if \<not> IsZero since \<and> Before (Published item) since then collect_since since rest result
      else collect_since since rest (result @ [item]))"

text \<open>\<open>if limit > 0 && len(result) > limit { result = result[len(result)-limit:] }\<close>.\<close>

definition tail_limit :: "int \<Rightarrow> FeedItem list \<Rightarrow> FeedItem list" where
  "tail_limit limit result =
     (if 0 < limit \<and> limit < int (length result)
      then drop (nat (int (length result) - limit)) result else result)"

text \<open>
  \<open>PersistentStore.GetItems\<close>. The result is a slice of its own (\<open>nil\<close>, the empty
  list, for an unknown feed); the store afterwards is returned with it.
\<close>

definition GetItems :: "string \<Rightarrow> int \<Rightarrow> instant \<Rightarrow> PersistentStore \<Rightarrow> FeedItem list outcome \<times> PersistentStore" where
  "GetItems feedURL limit since s =
     (case RLock (mu s) of
        None \<Rightarrow> (Blocked, s)
      | Some m \<Rightarrow>
          (let s' = s\<lparr>mu := RUnlock m\<rparr> in
           case feeds s feedURL of
             None \<Rightarrow> (Returned [], s')
           | Some bucket \<Rightarrow> (Returned (tail_limit limit (collect_since since (Items bucket) [])), s')))"

text \<open>The items of a feed's bucket, none when the feed has no bucket.\<close>

definition bucket_items :: "PersistentStore \<Rightarrow> string \<Rightarrow> FeedItem list" where
  "bucket_items s feedURL = (case feeds s feedURL of None \<Rightarrow> [] | Some b \<Rightarrow> Items b)"

text \<open>
  The order of a bucket in the words of the specification: for all adjacent pairs
  \<open>(a, b)\<close> of the sequence, \<open>a.published <= b.published\<close>.
\<close>

fun ascending :: "FeedItem list \<Rightarrow> bool" where
  "ascending (a # b # rest) = (Published a \<le> Published b \<and> ascending (b # rest))"
| "ascending rest = True"

text \<open>
  \<open>AddItems\<close> calls made one after the other on the same store, each with its own
  clock readings; the store and the file system after the last one.
\<close>

fun AddItems_calls :: "sys \<Rightarrow> (clock \<times> string \<times> FeedItem list) list \<Rightarrow> PersistentStore \<Rightarrow> filesys \<Rightarrow> PersistentStore \<times> filesys" where
  "AddItems_calls os [] s fs = (s, fs)"
| "AddItems_calls os ((clk, feedURL, new) # calls) s fs =
     (case AddItems os clk feedURL new s fs of (_, s', fs') \<Rightarrow> AddItems_calls os calls s' fs')"

section \<open>FeedStore and Fetcher\<close>

text \<open>\<open>type FeedStore struct\<close>; its \<open>mu\<close> and \<open>path\<close> are \<open>fmu\<close> and \<open>fpath\<close> here.\<close>

record FeedStore =
  items :: "FeedItem list"
  fmu :: RWMutex
  fpath :: string
  maxItems :: int
  lastFetch :: "string \<rightharpoonup> instant"

text \<open>\<open>FeedStore.save\<close>: the read lock is held around \<open>json.MarshalIndent\<close> only.\<close>

definition FeedStore_save :: "sys \<Rightarrow> FeedStore \<Rightarrow> filesys \<Rightarrow> error option outcome \<times> FeedStore \<times> filesys" where
  "FeedStore_save os s fs =
     (case RLock (fmu s) of
        None \<Rightarrow> (Blocked, s, fs)
      | Some m \<Rightarrow>
          (let s' = s\<lparr>fmu := RUnlock m\<rparr> in
           case marshalItems os (items s) of
             Inl e \<Rightarrow> (Returned (Some e), s', fs)
           | Inr data \<Rightarrow>
               (let tmpPath = fpath s @ ''.tmp'' in
                case write_err os of
                  Some e \<Rightarrow> (Returned (Some e), s', fs)
                | None \<Rightarrow>
                    (let fs1 = fs(tmpPath \<mapsto> Data data) in
                     case rename_err os of
                       Some e \<Rightarrow> (Returned (Some e), s', fs1)
                     | None \<Rightarrow> (Returned None, s', (fs1(tmpPath := None))(fpath s \<mapsto> Data data))))))"

text \<open>
  \<open>if len(xs) > n { xs = xs[len(xs)-n:] }\<close>: with a negative \<open>n\<close> the lower bound is
  beyond the length and the slice expression panics (\<open>None\<close>).
\<close>

definition keep_latest :: "int \<Rightarrow> FeedItem list \<Rightarrow> FeedItem list option" where
  "keep_latest n xs =
     (if n < int (length xs)
      then (if n < 0 then None else Some (drop (nat (int (length xs) - n)) xs))
      else Some xs)"

text \<open>
  The second loop of \<open>truncatePerFeed\<close>, over the feeds in the order the \<open>range\<close>
  visits them: \<open>feedItems[feed]\<close> is the items of that feed, in their order in \<open>all\<close>.
\<close>

fun truncate_groups :: "int \<Rightarrow> FeedItem list \<Rightarrow> string list \<Rightarrow> FeedItem list \<Rightarrow> FeedItem list option" where
  "truncate_groups n all [] newItems = Some newItems"
| "truncate_groups n all (feed # rest) newItems =
     (case keep_latest n (sort_published (filter (\<lambda>item. Feed item = feed) all)) of
        None \<Rightarrow> None
      | Some kept \<Rightarrow> truncate_groups n all rest (newItems @ kept))"

text \<open>\<open>FeedStore.uniqueFeeds\<close>, as the list of the distinct feed names.\<close>

definition uniqueFeeds :: "FeedStore \<Rightarrow> string list" where
  "uniqueFeeds s = remdups (map Feed (items s))"

text \<open>\<open>FeedStore.truncatePerFeed\<close>; \<open>None\<close> is a panic.\<close>

definition truncatePerFeed :: "sys \<Rightarrow> FeedStore \<Rightarrow> FeedStore option" where
  "truncatePerFeed os s =
     (case truncate_groups (maxItems s) (items s) (range_order os (remdups (map Feed (items s)))) [] of
        None \<Rightarrow> None
      | Some newItems \<Rightarrow> Some (s\<lparr>items := sort_published newItems\<rparr>))"

text \<open>
  \<open>FeedStore.Add\<close>. A panic runs the deferred \<open>Unlock\<close>; a \<open>save\<close> that never returns
  leaves the write lock held.
\<close>

definition Add :: "sys \<Rightarrow> FeedItem list \<Rightarrow> FeedStore \<Rightarrow> filesys \<Rightarrow> error option outcome \<times> FeedStore \<times> filesys" where
  "Add os new s fs =
     (case Lock (fmu s) of
        None \<Rightarrow> (Blocked, s, fs)
      | Some m \<Rightarrow>
          (let s1 = s\<lparr>fmu := m, items := sort_published (add_new (set (map ID (items s))) new (items s))\<rparr> in
           case truncatePerFeed os s1 of
             None \<Rightarrow> (Panicked, s1\<lparr>fmu := Unlock m\<rparr>, fs)
           | Some s2 \<Rightarrow>
               (case keep_latest (maxItems s2 * int (length (uniqueFeeds s2))) (items s2) of
                  None \<Rightarrow> (Panicked, s2\<lparr>fmu := Unlock m\<rparr>, fs)
                | Some kept \<Rightarrow>
                    (case FeedStore_save os (s2\<lparr>items := kept\<rparr>) fs of
                       (Returned err, s3, fs3) \<Rightarrow> (Returned err, s3\<lparr>fmu := Unlock (fmu s3)\<rparr>, fs3)
                     | (Blocked, s3, fs3) \<Rightarrow> (Blocked, s3, fs3)
                     | (Panicked, s3, fs3) \<Rightarrow> (Panicked, s3\<lparr>fmu := Unlock (fmu s3)\<rparr>, fs3)))))"

text \<open>
  \<open>FeedStore.UpdateFeed\<close>, with the reading of \<open>time.Now()\<close> it takes: \<open>Inl err\<close> is
  \<open>return 0, err\<close> and \<open>Inr n\<close> is \<open>return n, nil\<close>.
\<close>

definition UpdateFeed :: "sys \<Rightarrow> instant \<Rightarrow> string \<Rightarrow> FeedStore \<Rightarrow> filesys \<Rightarrow> (error + int) outcome \<times> FeedStore \<times> filesys" where
  "UpdateFeed os now url s fs =
     (case fetchFeed os url of
        Inl e \<Rightarrow> (Returned (Inl e), s, fs)
      | Inr new \<Rightarrow>
          (case Add os new s fs of
             (Returned (Some e), s', fs') \<Rightarrow> (Returned (Inl e), s', fs')
           | (Returned None, s', fs') \<Rightarrow>
               (Returned (Inr (int (length new))), s'\<lparr>lastFetch := (lastFetch s')(url \<mapsto> now)\<rparr>, fs')
           | (Blocked, s', fs') \<Rightarrow> (Blocked, s', fs')
           | (Panicked, s', fs') \<Rightarrow> (Panicked, s', fs')))"

text \<open>
  \<open>type Fetcher struct\<close>: \<open>sem\<close> is the number of permits taken from the semaphore
  channel and \<open>sem_cap\<close> its capacity. The mutex around \<open>stats\<close> is taken and released
  within one statement and is left out.
\<close>

record Fetcher =
  store :: FeedStore
  sem :: nat
  sem_cap :: nat
  stats :: "string \<rightharpoonup> int"

text \<open>\<open>NewFetcher\<close>.\<close>

definition NewFetcher :: "FeedStore \<Rightarrow> Fetcher" where
  "NewFetcher st = \<lparr>store = st, sem = 0, sem_cap = 5, stats = Map.empty\<rparr>"

text \<open>
  A run of \<open>FetchAll\<close>: the fetcher, the file system, the errors sent to \<open>errs\<close> in
  order, the number of goroutines that never reach \<open>wg.Done()\<close>, and whether one panicked.
\<close>

record fetch_run =
  fetcher :: Fetcher
  disk :: filesys
  errs :: "error list"
  stuck :: nat
  crashed :: bool

text \<open>
  The goroutine that \<open>FetchAll\<close> starts for one url, run from its start until it
  returns or waits forever. The context is one that is never cancelled, so a goroutine
  that finds no permit waits.
\<close>

definition fetch_task :: "sys \<Rightarrow> (string \<Rightarrow> instant) \<Rightarrow> string \<Rightarrow> fetch_run \<Rightarrow> fetch_run" where
  "fetch_task os now u r =
     (let f = fetcher r in
      if sem_cap f \<le> sem f then r\<lparr>stuck := Suc (stuck r)\<rparr>
      else
        (case UpdateFeed os (now u) u (store f) (disk r) of
           (Blocked, s', fs') \<Rightarrow>
             r\<lparr>fetcher := f\<lparr>store := s', sem := Suc (sem f)\<rparr>, disk := fs', stuck := Suc (stuck r)\<rparr>
         | (Panicked, s', fs') \<Rightarrow>
             r\<lparr>fetcher := f\<lparr>store := s'\<rparr>, disk := fs', crashed := True\<rparr>
         | (Returned (Inl err), s', fs') \<Rightarrow>
             r\<lparr>fetcher := f\<lparr>store := s'\<rparr>, disk := fs', errs := errs r @ [Wrap u err]\<rparr>
         | (Returned (Inr count), s', fs') \<Rightarrow>
             r\<lparr>fetcher := f\<lparr>store := s', stats := (stats f)(u \<mapsto> count)\<rparr>, disk := fs'\<rparr>))"

text \<open>
  \<open>Fetcher.FetchAll\<close>, its goroutines run one after the other in the order of \<open>urls\<close>.
  \<open>wg.Wait()\<close> returns when every goroutine has; then the first error in \<open>errs\<close> is
  returned, or \<open>nil\<close>.
\<close>

definition FetchAll :: "sys \<Rightarrow> (string \<Rightarrow> instant) \<Rightarrow> string list \<Rightarrow> Fetcher \<Rightarrow> filesys \<Rightarrow> error option outcome \<times> Fetcher \<times> filesys" where
  "FetchAll os now urls f fs =
     (let r = fold (fetch_task os now) urls \<lparr>fetcher = f, disk = fs, errs = [], stuck = 0, crashed = False\<rparr> in
      (if crashed r then Panicked
       else if 0 < stuck r then Blocked
       else Returned (case errs r of [] \<Rightarrow> None | e # _ \<Rightarrow> Some e),
       fetcher r, disk r))"

section \<open>Example data\<close>

text \<open>\<open>time.Unix(sec, nsec)\<close>: the Unix epoch is 62135596800 seconds after the zero time.\<close>

definition Unix :: "int \<Rightarrow> int \<Rightarrow> instant" where
  "Unix sec nsec = (sec + 62135596800) * 1000000000 + nsec"

text \<open>Records, a bucket, a store, an environment and a clock for the examples below.\<close>

definition example_item :: "string \<Rightarrow> instant \<Rightarrow> FeedItem" where
  "example_item i t =
     \<lparr>Feed = ''Example Feed'', Title = i, Link = ''https://example.org/'' @ i, Published = t,
      Added = 0, ID = i, Read = False, Starred = False\<rparr>"

definition example_bucket :: "FeedItem list \<Rightarrow> FeedBucket" where
  "example_bucket xs =
     \<lparr>Items = xs,
      Meta = \<lparr>URL = ''src'', MetaTitle = ''Example Feed'', Updated = 0, Etag = [], LastFetch = 0\<rparr>\<rparr>"

definition example_store :: "duration \<Rightarrow> FeedItem list \<Rightarrow> PersistentStore" where
  "example_store age xs =
     \<lparr>mu = unlocked, feeds = [''src'' \<mapsto> example_bucket xs], path = ''feeds.json'', maxAge = age\<rparr>"

definition example_os :: sys where
  "example_os =
     \<lparr>mkdir_err = None, write_err = None, rename_err = None,
      marshalFeeds = (\<lambda>m. Inr ''{}''),
      unmarshalFeeds = (\<lambda>data m. if data = ''{}'' then (None, m) else (Some (Err ''invalid character''), m)),
      marshalItems = (\<lambda>xs. Inr ''[]''),
      fetchFeed = (\<lambda>url. Inl (Err ''no such host'')),
      range_order = (\<lambda>keys. keys)\<rparr>"

definition example_clock :: "instant \<Rightarrow> clock" where
  "example_clock t = \<lparr>now_create = t, now_cleanup = t, now_meta = t\<rparr>"

text \<open>
  A \<open>FeedStore\<close> with a free lock, and three sources of which the second answers with
  an error status.
\<close>

definition example_feedstore :: "FeedItem list \<Rightarrow> FeedStore" where
  "example_feedstore xs =
     \<lparr>items = xs, fmu = unlocked, fpath = ''feeds.json'', maxItems = 100, lastFetch = Map.empty\<rparr>"

definition example_fetch :: "string \<Rightarrow> error + FeedItem list" where
  "example_fetch url =
     (if url = ''https://one.example/feed'' then Inr [example_item ''a'' 1]
      else if url = ''https://two.example/feed'' then Inl (Err ''HTTP 500'')
      else Inr [example_item ''b'' 2])"

definition example_sys :: sys where
  "example_sys = example_os\<lparr>fetchFeed := example_fetch\<rparr>"

section \<open>Locks, iteration and the result of AddItems\<close>

lemma RLock_after_Lock: "Lock m = Some m' \<Longrightarrow> RLock m' = None"
  by (auto simp: RLock_def Lock_def split: if_splits)

lemma collect_since_filter:
  "collect_since since xs acc = acc @ filter (\<lambda>item. IsZero since \<or> since \<le> Published item) xs"
  by (induction xs arbitrary: acc) (auto simp: Before_def)

lemma add_new_append: "add_new ex new acc = acc @ add_new ex new []"
proof (induction new arbitrary: ex acc)
  case Nil
  show ?case by simp
next
  case (Cons c new)
  show ?case
  proof (cases "ID c \<in> ex")
    case True
    then show ?thesis using Cons.IH [of ex acc] by simp
  next
    case False
    then show ?thesis
      using Cons.IH [of "insert (ID c) ex" "acc @ [c]"] Cons.IH [of "insert (ID c) ex" "[c]"] by simp
  qed
qed

lemma add_new_skip:
  "ID c \<in> ex \<Longrightarrow> add_new ex (pre @ c # post) acc = add_new ex (pre @ post) acc"
  by (induction pre arbitrary: ex acc) auto

lemma add_new_all_existing:
  "ID ` set new \<subseteq> ex \<Longrightarrow> add_new ex new acc = acc"
  by (induction new arbitrary: acc) auto

lemma add_new_ids:
  "set (map ID (add_new ex new [])) \<inter> ex = {}"
  by (induction new arbitrary: ex) (auto simp: add_new_append [of _ _ "[_]"])

lemma add_new_distinct:
  "distinct (map ID (add_new ex new []))"
proof (induction new arbitrary: ex)
  case Nil
  show ?case by simp
next
  case (Cons c new)
  have "ID c \<notin> set (map ID (add_new (insert (ID c) ex) new []))"
    using add_new_ids [of "insert (ID c) ex" new] by auto
  then show ?case
    using Cons.IH [of ex] Cons.IH [of "insert (ID c) ex"]
    by (auto simp: add_new_append [of _ _ "[_]"])
qed

lemma add_new_length: "length (add_new ex new []) \<le> length new"
proof (induction new arbitrary: ex)
  case Nil
  show ?case by simp
next
  case (Cons c new)
  show ?case
    using Cons.IH [of ex] Cons.IH [of "insert (ID c) ex"]
    by (auto simp: add_new_append [of _ _ "[_]"])
qed

lemma AddItems_result:
  assumes "Lock (mu s) = Some m"
  shows "AddItems os clk feedURL new s fs =
     (Blocked,
      s\<lparr>mu := m, feeds := (feeds s)(feedURL \<mapsto>
          (let bucket0 = (case feeds s feedURL of
                            Some b \<Rightarrow> b
                          | None \<Rightarrow> \<lparr>Items = [],
                                     Meta = \<lparr>URL = feedURL, MetaTitle = [], Updated = 0,
                                             Etag = [], LastFetch = now_create clk\<rparr>\<rparr>);
               bucket3 = cleanupBucket s (now_cleanup clk)
                            (bucket0\<lparr>Items := sort_published (add_new (set (map ID (Items bucket0))) new (Items bucket0))\<rparr>);
               meta1 = (Meta bucket3)\<lparr>LastFetch := now_meta clk\<rparr>
           in bucket3\<lparr>Meta := (if new \<noteq> [] \<and> MetaTitle meta1 = [] then meta1\<lparr>MetaTitle := Feed (hd new)\<rparr> else meta1)\<rparr>))\<rparr>,
      fs)"
  using assms RLock_after_Lock [OF assms]
  by (simp add: AddItems_def Let_def save_def)

lemma AddItems_never_returns:
  "fst (AddItems os clk feedURL new s fs) = Blocked"
proof (cases "Lock (mu s)")
  case None
  then show ?thesis by (simp add: AddItems_def)
next
  case (Some m)
  then show ?thesis by (simp add: AddItems_result)
qed

lemma GetItems_result:
  assumes "\<not> writer (mu s)"
  shows "GetItems feedURL limit since s =
           (Returned (tail_limit limit (filter (\<lambda>item. IsZero since \<or> since \<le> Published item) (bucket_items s feedURL))), s)"
proof -
  have "RLock (mu s) = Some ((mu s)\<lparr>readers := Suc (readers (mu s))\<rparr>)"
    using assms by (simp add: RLock_def)
  moreover have "RUnlock ((mu s)\<lparr>readers := Suc (readers (mu s))\<rparr>) = mu s"
    by (simp add: RUnlock_def)
  ultimately show ?thesis
    by (simp add: GetItems_def bucket_items_def collect_since_filter tail_limit_def split: option.splits)
qed

lemma tail_limit_drop:
  "tail_limit limit r = (if 0 < limit then drop (length r - nat limit) r else r)"
  by (auto simp: tail_limit_def nat_diff_distrib)

section \<open>Reads\<close>

text \<open>
  C6. When no writer holds the lock, \<open>GetItems\<close> returns the bucket's items with
  \<open>published >= since\<close> (all of them when \<open>since\<close> is the zero time), cut to the last
  \<open>limit\<close> of them when \<open>limit > 0\<close>, and leaves the store as it was. For the bucket
  published 2023-01-01, 2023-02-01, 2023-03-01 and \<open>since\<close> = 2023-01-15 the result is
  the last two entries.
\<close>

theorem GetItems_filters_then_keeps_tail:
  "(\<not> writer (mu s) \<longrightarrow>
      GetItems feedURL limit since s =
        (Returned
           (let r = filter (\<lambda>item. IsZero since \<or> since \<le> Published item) (bucket_items s feedURL)
            in if 0 < limit then drop (length r - nat limit) r else r),
         s))
   \<and> GetItems ''src'' 0 (Unix 1673740800 0)
         (example_store 0 [example_item ''a'' (Unix 1672531200 0), example_item ''b'' (Unix 1675209600 0),
                           example_item ''c'' (Unix 1677628800 0)]) =
        (Returned [example_item ''b'' (Unix 1675209600 0), example_item ''c'' (Unix 1677628800 0)],
         example_store 0 [example_item ''a'' (Unix 1672531200 0), example_item ''b'' (Unix 1675209600 0),
                           example_item ''c'' (Unix 1677628800 0)])"
proof
  show "\<not> writer (mu s) \<longrightarrow>
      GetItems feedURL limit since s =
        (Returned
           (let r = filter (\<lambda>item. IsZero since \<or> since \<le> Published item) (bucket_items s feedURL)
            in if 0 < limit then drop (length r - nat limit) r else r),
         s)"
    by (simp add: GetItems_result tail_limit_drop Let_def)
next
  let ?s = "example_store 0 [example_item ''a'' (Unix 1672531200 0), example_item ''b'' (Unix 1675209600 0),
                           example_item ''c'' (Unix 1677628800 0)]"
  have w: "\<not> writer (mu ?s)" by (simp add: example_store_def unlocked_def)
  have b: "bucket_items ?s ''src'' = [example_item ''a'' (Unix 1672531200 0), example_item ''b'' (Unix 1675209600 0),
                           example_item ''c'' (Unix 1677628800 0)]"
    by (simp add: bucket_items_def example_store_def example_bucket_def)
  show "GetItems ''src'' 0 (Unix 1673740800 0) ?s =
        (Returned [example_item ''b'' (Unix 1675209600 0), example_item ''c'' (Unix 1677628800 0)], ?s)"
    unfolding GetItems_result [OF w] b
    by (simp add: tail_limit_def IsZero_def Unix_def example_item_def)
qed

text \<open>The theorem at a bucket of three records, \<open>since\<close> = 15 and \<open>limit\<close> = 1.\<close>

theorem GetItems_filters_then_keeps_tail_witness:
  "\<not> writer (mu (example_store 0 [example_item ''a'' 10, example_item ''b'' 20, example_item ''c'' 30]))
   \<and> GetItems ''src'' 1 15 (example_store 0 [example_item ''a'' 10, example_item ''b'' 20, example_item ''c'' 30]) =
       (Returned [example_item ''c'' 30],
        example_store 0 [example_item ''a'' 10, example_item ''b'' 20, example_item ''c'' 30])"
proof -
  let ?s = "example_store 0 [example_item ''a'' 10, example_item ''b'' 20, example_item ''c'' 30]"
  have w: "\<not> writer (mu ?s)"
    by (simp add: example_store_def unlocked_def)
  have b: "bucket_items ?s ''src'' = [example_item ''a'' 10, example_item ''b'' 20, example_item ''c'' 30]"
    by (simp add: bucket_items_def example_store_def example_bucket_def)
  have p: "Published (example_item i t) = t" for i t
    by (simp add: example_item_def)
  have "GetItems ''src'' 1 15 ?s =
          (Returned
             (let r = filter (\<lambda>item. IsZero 15 \<or> 15 \<le> Published item) (bucket_items ?s ''src'')
              in if 0 < (1::int) then drop (length r - nat 1) r else r),
           ?s)"
    using w GetItems_filters_then_keeps_tail [of ?s "''src''" 1 15] by blast
  then have "GetItems ''src'' 1 15 ?s = (Returned [example_item ''c'' 30], ?s)"
    unfolding b by (simp add: IsZero_def p)
  with w show ?thesis by blast
qed

section \<open>The lock discipline\<close>

text \<open>
  C10. \<open>AddItems\<close> does not return: it takes the write lock, and \<open>save\<close> then waits
  for the read lock of the same \<open>RWMutex\<close>, which the write lock excludes. No call
  returns and none writes the file; so it is for the first call on a new store.
\<close>

theorem AddItems_waits_for_its_own_lock:
  "fst (AddItems os clk feedURL new s fs) = Blocked
   \<and> snd (snd (AddItems os clk feedURL new s fs)) = fs
   \<and> fst (AddItems example_os (example_clock 100) ''src'' []
            \<lparr>mu = unlocked, feeds = Map.empty, path = ''feeds.json'', maxAge = 0\<rparr> Map.empty) = Blocked
   \<and> writer (mu (fst (snd (AddItems example_os (example_clock 100) ''src'' []
            \<lparr>mu = unlocked, feeds = Map.empty, path = ''feeds.json'', maxAge = 0\<rparr> Map.empty))))"
proof -
  have fs: "snd (snd (AddItems os clk feedURL new s fs)) = fs"
  proof (cases "Lock (mu s)")
    case None
    then show ?thesis by (simp add: AddItems_def)
  next
    case (Some m)
    then show ?thesis by (simp add: AddItems_result)
  qed
  have l: "Lock unlocked = Some (unlocked\<lparr>writer := True\<rparr>)"
    by (simp add: Lock_def unlocked_def)
  have w: "writer (mu (fst (snd (AddItems example_os (example_clock 100) ''src'' []
            \<lparr>mu = unlocked, feeds = Map.empty, path = ''feeds.json'', maxAge = 0\<rparr> Map.empty))))"
    by (subst AddItems_result [where m = "unlocked\<lparr>writer := True\<rparr>"]) (simp_all add: l)
  show ?thesis
    using fs w by (simp add: AddItems_never_returns)
qed

section \<open>The bucket that AddItems leaves\<close>

lemma cleanupBucket_Items:
  "Items (cleanupBucket s now b) =
     filter (\<lambda>item. maxAge s \<le> 0 \<or> now - maxAge s < Published item) (Items b)"
  by (auto simp: cleanupBucket_def Let_def After_def Add_duration_def intro: filter_cong)

lemma AddItems_items:
  assumes "Lock (mu s) \<noteq> None"
  shows "bucket_items (fst (snd (AddItems os clk feedURL new s fs))) feedURL =
           filter (\<lambda>item. maxAge s \<le> 0 \<or> now_cleanup clk - maxAge s < Published item)
             (sort_key Published
                (bucket_items s feedURL @ add_new (set (map ID (bucket_items s feedURL))) new []))"
proof -
  from assms obtain m where m: "Lock (mu s) = Some m" by blast
  show ?thesis
    unfolding AddItems_result [OF m]
    by (simp add: bucket_items_def Let_def cleanupBucket_Items sort_published_def
          add_new_append [of _ new "Items _"] split: option.splits)
qed

lemma AddItems_other_feed:
  "v \<noteq> feedURL \<Longrightarrow> feeds (fst (snd (AddItems os clk feedURL new s fs))) v = feeds s v"
proof (cases "Lock (mu s)")
  case None
  then show ?thesis by (simp add: AddItems_def)
next
  case (Some m)
  assume "v \<noteq> feedURL"
  then show ?thesis by (simp add: AddItems_result [OF Some])
qed

lemma AddItems_waiting:
  "Lock (mu s) = None \<Longrightarrow> AddItems os clk feedURL new s fs = (Blocked, s, fs)"
  by (simp add: AddItems_def)

lemma ascending_sorted: "ascending xs = sorted (map Published xs)"
  by (induction xs rule: ascending.induct) (auto simp: order_trans)

lemma bucket_items_other:
  "v \<noteq> feedURL \<Longrightarrow>
   bucket_items (fst (snd (AddItems os clk feedURL new s fs))) v = bucket_items s v"
  by (simp add: bucket_items_def AddItems_other_feed)

lemma AddItems_keeps_sorted:
  assumes "\<forall>u. sorted (map Published (bucket_items s u))"
  shows "sorted (map Published (bucket_items (fst (snd (AddItems os clk feedURL new s fs))) v))"
proof (cases "v = feedURL")
  case False
  then show ?thesis using assms by (simp add: bucket_items_other)
next
  case True
  show ?thesis
  proof (cases "Lock (mu s)")
    case None
    then show ?thesis using assms by (simp add: AddItems_waiting)
  next
    case (Some m)
    then have "Lock (mu s) \<noteq> None" by simp
    then show ?thesis
      unfolding True by (simp add: AddItems_items sorted_filter)
  qed
qed

lemma AddItems_calls_keep_sorted:
  "\<forall>u. sorted (map Published (bucket_items s u)) \<Longrightarrow>
   sorted (map Published (bucket_items (fst (AddItems_calls os calls s fs)) v))"
proof (induction calls arbitrary: s fs)
  case Nil
  then show ?case by simp
next
  case (Cons call calls)
  obtain clk feedURL new where call: "call = (clk, feedURL, new)"
    by (cases call) auto
  obtain out s' fs' where r: "AddItems os clk feedURL new s fs = (out, s', fs')"
    by (cases "AddItems os clk feedURL new s fs") auto
  have "\<forall>u. sorted (map Published (bucket_items s' u))"
    using AddItems_keeps_sorted [OF Cons.prems, of os clk feedURL new fs] r by simp
  then show ?case
    using Cons.IH [of s' fs'] by (simp add: call r)
qed

lemma AddItems_stable:
  assumes "Lock (mu s) \<noteq> None"
  shows "filter (\<lambda>item. Published item = t) (bucket_items (fst (snd (AddItems os clk feedURL new s fs))) feedURL) =
         filter (\<lambda>item. Published item = t \<and> (maxAge s \<le> 0 \<or> now_cleanup clk - maxAge s < Published item))
           (bucket_items s feedURL @ add_new (set (map ID (bucket_items s feedURL))) new [])"
proof -
  let ?xs = "bucket_items s feedURL @ add_new (set (map ID (bucket_items s feedURL))) new []"
  let ?keep = "\<lambda>item. maxAge s \<le> 0 \<or> now_cleanup clk - maxAge s < Published item"
  have "filter (\<lambda>item. Published item = t) (filter ?keep (sort_key Published ?xs)) =
        filter ?keep (filter (\<lambda>item. Published item = t) (sort_key Published ?xs))"
    by (simp add: conj_commute)
  also have "\<dots> = filter ?keep (filter (\<lambda>item. Published item = t) ?xs)"
    by (simp only: sort_key_stable)
  also have "\<dots> = filter (\<lambda>item. Published item = t \<and> ?keep item) ?xs"
    by simp
  finally show ?thesis
    by (simp only: AddItems_items [OF assms])
qed

lemma example_store_free: "Lock (mu (example_store age xs)) \<noteq> None"
  by (simp add: example_store_def Lock_def unlocked_def)

lemma example_store_items: "bucket_items (example_store age xs) u = (if u = ''src'' then xs else [])"
  by (simp add: bucket_items_def example_store_def example_bucket_def)

lemma example_store_maxAge: "maxAge (example_store age xs) = age"
  by (simp add: example_store_def)

lemma example_item_sel: "Published (example_item i t) = t" "ID (example_item i t) = i"
  by (simp_all add: example_item_def)

lemma example_clock_sel: "now_cleanup (example_clock t) = t"
  by (simp add: example_clock_def)

subsection \<open>Order\<close>

text \<open>
  C5. Buckets stay sorted ascending by \<open>published\<close>: if every bucket of a store is
  sorted (as in a new store, which has none), every bucket is sorted after any sequence of
  \<open>AddItems\<close> calls. A call that gets the write lock leaves its bucket sorted whatever it
  was before, and the sort is stable: the records with one and the same \<open>published\<close>
  value stand in the order they had in the bucket, followed by the appended candidates in
  the order they were given.
\<close>

theorem AddItems_keeps_buckets_sorted:
  "((\<forall>u. ascending (bucket_items s u)) \<longrightarrow>
      (\<forall>u. ascending (bucket_items (fst (AddItems_calls os calls s fs)) u)))
   \<and> (Lock (mu s) \<noteq> None \<longrightarrow>
        ascending (bucket_items (fst (snd (AddItems os clk feedURL new s fs))) feedURL)
        \<and> (\<forall>t. filter (\<lambda>item. Published item = t)
                  (bucket_items (fst (snd (AddItems os clk feedURL new s fs))) feedURL) =
                filter (\<lambda>item. Published item = t \<and> (maxAge s \<le> 0 \<or> now_cleanup clk - maxAge s < Published item))
                  (bucket_items s feedURL @ add_new (set (map ID (bucket_items s feedURL))) new [])))"
  unfolding ascending_sorted
proof (intro conjI impI allI)
  fix u
  assume "\<forall>u. sorted (map Published (bucket_items s u))"
  then show "sorted (map Published (bucket_items (fst (AddItems_calls os calls s fs)) u))"
    by (rule AddItems_calls_keep_sorted)
next
  assume "Lock (mu s) \<noteq> None"
  then show "sorted (map Published (bucket_items (fst (snd (AddItems os clk feedURL new s fs))) feedURL))"
    by (simp add: AddItems_items sorted_filter)
next
  fix t
  assume "Lock (mu s) \<noteq> None"
  then show "filter (\<lambda>item. Published item = t)
                  (bucket_items (fst (snd (AddItems os clk feedURL new s fs))) feedURL) =
                filter (\<lambda>item. Published item = t \<and> (maxAge s \<le> 0 \<or> now_cleanup clk - maxAge s < Published item))
                  (bucket_items s feedURL @ add_new (set (map ID (bucket_items s feedURL))) new [])"
    by (rule AddItems_stable)
qed

text \<open>
  The theorem at a bucket holding \<open>a\<close> (published 1), to which \<open>c\<close> (published 3) and
  \<open>b\<close> (published 1) are added: \<open>a\<close> stays before \<open>b\<close>.
\<close>

theorem AddItems_keeps_buckets_sorted_witness:
  "(\<forall>u. ascending (bucket_items (example_store 0 [example_item ''a'' 1]) u))
   \<and> Lock (mu (example_store 0 [example_item ''a'' 1])) \<noteq> None
   \<and> ascending (bucket_items (fst (AddItems_calls example_os
        [(example_clock 100, ''src'', [example_item ''c'' 3, example_item ''b'' 1])]
        (example_store 0 [example_item ''a'' 1]) Map.empty)) ''src'')
   \<and> filter (\<lambda>item. Published item = 1)
        (bucket_items (fst (snd (AddItems example_os (example_clock 100) ''src''
           [example_item ''c'' 3, example_item ''b'' 1] (example_store 0 [example_item ''a'' 1]) Map.empty))) ''src'')
      = [example_item ''a'' 1, example_item ''b'' 1]"
proof -
  let ?s = "example_store 0 [example_item ''a'' 1]"
  let ?new = "[example_item ''c'' 3, example_item ''b'' 1]"
  have h1: "\<forall>u. ascending (bucket_items ?s u)"
    by (simp add: example_store_items)
  have h2: "Lock (mu ?s) \<noteq> None"
    by (rule example_store_free)
  note inst = AddItems_keeps_buckets_sorted [of ?s example_os "[(example_clock 100, ''src'', ?new)]" Map.empty
      "example_clock 100" "''src''" ?new]
  have c1: "ascending (bucket_items (fst (AddItems_calls example_os
        [(example_clock 100, ''src'', ?new)] ?s Map.empty)) ''src'')"
    using inst h1 by blast
  have "filter (\<lambda>item. Published item = 1)
        (bucket_items (fst (snd (AddItems example_os (example_clock 100) ''src'' ?new ?s Map.empty))) ''src'')
      = filter (\<lambda>item. Published item = 1 \<and> (maxAge ?s \<le> 0 \<or> now_cleanup (example_clock 100) - maxAge ?s < Published item))
                  (bucket_items ?s ''src'' @ add_new (set (map ID (bucket_items ?s ''src''))) ?new [])"
    using inst h2 by blast
  then have c2: "filter (\<lambda>item. Published item = 1)
        (bucket_items (fst (snd (AddItems example_os (example_clock 100) ''src'' ?new ?s Map.empty))) ''src'')
      = [example_item ''a'' 1, example_item ''b'' 1]"
    by (simp add: example_store_items example_store_maxAge example_item_sel)
  show ?thesis
    using h1 h2 c1 c2 by blast
qed

subsection \<open>Retention\<close>

lemma distinct_ids_sort:
  "distinct (map ID (sort_key Published xs)) = distinct (map ID xs)"
  by (simp add: distinct_map)

lemma AddItems_distinct_ids:
  assumes "Lock (mu s) \<noteq> None" and "distinct (map ID (bucket_items s feedURL))"
  shows "distinct (map ID (bucket_items (fst (snd (AddItems os clk feedURL new s fs))) feedURL))"
proof -
  let ?old = "bucket_items s feedURL"
  let ?added = "add_new (set (map ID ?old)) new []"
  have "set (map ID ?old) \<inter> set (map ID ?added) = {}"
    using add_new_ids [of "set (map ID ?old)" new] by blast
  then have "distinct (map ID (?old @ ?added))"
    using assms(2) add_new_distinct [of "set (map ID ?old)" new] by simp
  then have "distinct (map ID (sort_key Published (?old @ ?added)))"
    by (simp only: distinct_ids_sort)
  then show ?thesis
    unfolding AddItems_items [OF assms(1)] by (rule distinct_map_filter)
qed

lemma AddItems_length:
  assumes "Lock (mu s) \<noteq> None"
  shows "length (bucket_items (fst (snd (AddItems os clk feedURL new s fs))) feedURL)
           \<le> length (bucket_items s feedURL) + length new"
proof -
  have "length (bucket_items (fst (snd (AddItems os clk feedURL new s fs))) feedURL)
          \<le> length (bucket_items s feedURL) + length (add_new (set (map ID (bucket_items s feedURL))) new [])"
    unfolding AddItems_items [OF assms]
    using length_filter_le [of _ "sort_key Published (bucket_items s feedURL @ add_new (set (map ID (bucket_items s feedURL))) new [])"]
    by simp
  then show ?thesis
    using add_new_length [of "set (map ID (bucket_items s feedURL))" new] by linarith
qed

text \<open>
  \<open>PersistentStore\<close> has no \<open>maxItems\<close>. With a cap of two records per bucket, adding
  \<open>b\<close> and \<open>c\<close> to a bucket that holds the older \<open>a\<close> would leave \<open>b\<close> and \<open>c\<close>;
  \<open>AddItems\<close> leaves all three.
\<close>

theorem AddItems_applies_no_count_cap:
  "bucket_items (example_store 0 [example_item ''a'' 1]) ''src'' = [example_item ''a'' 1]
   \<and> bucket_items (fst (snd (AddItems example_os (example_clock 100) ''src''
         [example_item ''b'' 2, example_item ''c'' 3] (example_store 0 [example_item ''a'' 1]) Map.empty))) ''src''
       = [example_item ''a'' 1, example_item ''b'' 2, example_item ''c'' 3]
   \<and> \<not> length (bucket_items (fst (snd (AddItems example_os (example_clock 100) ''src''
         [example_item ''b'' 2, example_item ''c'' 3] (example_store 0 [example_item ''a'' 1]) Map.empty))) ''src'')
        \<le> 2"
  by (simp add: AddItems_items example_store_free example_store_items example_store_maxAge example_item_sel)

text \<open>
  C1, as the code has it. \<open>AddItems\<close> applies no count cap. A call that gets the write
  lock leaves in the bucket, in ascending order of \<open>published\<close>, the records it held and
  the deduplicated candidates, less those the age cleanup drops; so the bucket is no longer
  than the records it held and the candidates together, and with \<open>maxAge <= 0\<close> nothing
  is dropped at all.
\<close>

theorem AddItems_drops_by_age_only:
  "Lock (mu s) \<noteq> None \<longrightarrow>
     bucket_items (fst (snd (AddItems os clk feedURL new s fs))) feedURL =
       filter (\<lambda>item. maxAge s \<le> 0 \<or> now_cleanup clk - maxAge s < Published item)
         (sort_key Published
            (bucket_items s feedURL @ add_new (set (map ID (bucket_items s feedURL))) new []))
     \<and> length (bucket_items (fst (snd (AddItems os clk feedURL new s fs))) feedURL)
          \<le> length (bucket_items s feedURL) + length new
     \<and> (maxAge s \<le> 0 \<longrightarrow>
          length (bucket_items (fst (snd (AddItems os clk feedURL new s fs))) feedURL) =
            length (bucket_items s feedURL) + length (add_new (set (map ID (bucket_items s feedURL))) new []))"
proof (intro impI conjI)
  assume free: "Lock (mu s) \<noteq> None"
  show "bucket_items (fst (snd (AddItems os clk feedURL new s fs))) feedURL =
       filter (\<lambda>item. maxAge s \<le> 0 \<or> now_cleanup clk - maxAge s < Published item)
         (sort_key Published
            (bucket_items s feedURL @ add_new (set (map ID (bucket_items s feedURL))) new []))"
    by (rule AddItems_items [OF free])
  show "length (bucket_items (fst (snd (AddItems os clk feedURL new s fs))) feedURL)
          \<le> length (bucket_items s feedURL) + length new"
    by (rule AddItems_length [OF free])
  assume "maxAge s \<le> 0"
  then show "length (bucket_items (fst (snd (AddItems os clk feedURL new s fs))) feedURL) =
            length (bucket_items s feedURL) + length (add_new (set (map ID (bucket_items s feedURL))) new [])"
    by (simp add: AddItems_items [OF free])
qed

text \<open>
  The theorem at a bucket holding \<open>a\<close>, to which \<open>b\<close>, \<open>c\<close> and a second record with
  the id of \<open>a\<close> are added.
\<close>

theorem AddItems_drops_by_age_only_witness:
  "Lock (mu (example_store 0 [example_item ''a'' 1])) \<noteq> None
   \<and> maxAge (example_store 0 [example_item ''a'' 1]) \<le> 0
   \<and> length (bucket_items (fst (snd (AddItems example_os (example_clock 100) ''src''
         [example_item ''b'' 2, example_item ''c'' 3, example_item ''a'' 4] (example_store 0 [example_item ''a'' 1]) Map.empty))) ''src'')
       = 3"
proof -
  let ?s = "example_store 0 [example_item ''a'' 1]"
  let ?new = "[example_item ''b'' 2, example_item ''c'' 3, example_item ''a'' 4]"
  have h1: "Lock (mu ?s) \<noteq> None" by (rule example_store_free)
  have h2: "maxAge ?s \<le> 0" by (simp add: example_store_maxAge)
  have "length (bucket_items (fst (snd (AddItems example_os (example_clock 100) ''src'' ?new ?s Map.empty))) ''src'')
          = length (bucket_items ?s ''src'') + length (add_new (set (map ID (bucket_items ?s ''src''))) ?new [])"
    using AddItems_drops_by_age_only [of ?s example_os "example_clock 100" "''src''" ?new Map.empty] h1 h2
    by blast
  then have "length (bucket_items (fst (snd (AddItems example_os (example_clock 100) ''src'' ?new ?s Map.empty))) ''src'') = 3"
    by (simp add: example_store_items example_item_sel)
  with h1 h2 show ?thesis by blast
qed

text \<open>
  A record published exactly at \<open>now - maxAge\<close> is not published before the cutoff, and
  \<open>cleanupBucket\<close> removes it: here \<open>maxAge\<close> is 10 and \<open>now\<close> is 100.
\<close>

theorem cleanupBucket_drops_record_at_cutoff:
  "\<not> Before (Published (example_item ''a'' 90)) (Add_duration 100 (- maxAge (example_store 10 [])))
   \<and> Items (cleanupBucket (example_store 10 []) 100 (example_bucket [example_item ''a'' 90])) = []
   \<and> bucket_items (fst (snd (AddItems example_os (example_clock 100) ''src''
         [example_item ''a'' 90] (example_store 10 []) Map.empty))) ''src'' = []"
  by (simp add: AddItems_items example_store_free example_store_items example_store_maxAge example_item_sel
        example_clock_sel cleanupBucket_Items Before_def Add_duration_def example_bucket_def)

text \<open>
  C7, as the code has it. When \<open>maxAge > 0\<close>, \<open>cleanupBucket\<close> keeps exactly the
  records published strictly after \<open>now - maxAge\<close>, in their order, and removes those
  published at or before it; otherwise it changes nothing. \<open>AddItems\<close> applies it to the
  sorted bucket, and what it leaves is the bucket of the result: no count cap follows.
\<close>

theorem cleanupBucket_keeps_strictly_newer:
  "cleanupBucket s now b =
     (if 0 < maxAge s then b\<lparr>Items := filter (\<lambda>item. now - maxAge s < Published item) (Items b)\<rparr> else b)
   \<and> (Lock (mu s) \<noteq> None \<longrightarrow>
        bucket_items (fst (snd (AddItems os clk feedURL new s fs))) feedURL =
          Items (cleanupBucket s (now_cleanup clk)
            \<lparr>Items = sort_published (bucket_items s feedURL @ add_new (set (map ID (bucket_items s feedURL))) new []),
             Meta = meta\<rparr>))"
  by (auto simp: AddItems_items cleanupBucket_Items sort_published_def cleanupBucket_def After_def
        Add_duration_def Let_def)

text \<open>
  The theorem at \<open>maxAge\<close> = 10 and \<open>now\<close> = 100: of the records published at 90, 91
  and 95, the first is dropped.
\<close>

theorem cleanupBucket_keeps_strictly_newer_witness:
  "Lock (mu (example_store 10 [example_item ''a'' 90])) \<noteq> None
   \<and> bucket_items (fst (snd (AddItems example_os (example_clock 100) ''src''
         [example_item ''c'' 95, example_item ''b'' 91] (example_store 10 [example_item ''a'' 90]) Map.empty))) ''src''
       = [example_item ''b'' 91, example_item ''c'' 95]"
proof -
  let ?s = "example_store 10 [example_item ''a'' 90]"
  let ?new = "[example_item ''c'' 95, example_item ''b'' 91]"
  have h: "Lock (mu ?s) \<noteq> None" by (rule example_store_free)
  have "bucket_items (fst (snd (AddItems example_os (example_clock 100) ''src'' ?new ?s Map.empty))) ''src'' =
          Items (cleanupBucket ?s (now_cleanup (example_clock 100))
            \<lparr>Items = sort_published (bucket_items ?s ''src'' @ add_new (set (map ID (bucket_items ?s ''src''))) ?new []),
             Meta = Meta (example_bucket [])\<rparr>)"
    using cleanupBucket_keeps_strictly_newer [where s = ?s and os = example_os and clk = "example_clock 100"
        and feedURL = "''src''" and new = ?new and fs = Map.empty and meta = "Meta (example_bucket [])"] h
    by blast
  then have "bucket_items (fst (snd (AddItems example_os (example_clock 100) ''src'' ?new ?s Map.empty))) ''src''
       = [example_item ''b'' 91, example_item ''c'' 95]"
    by (simp add: cleanupBucket_Items sort_published_def example_store_items example_store_maxAge
          example_item_sel example_clock_sel)
  with h show ?thesis by blast
qed

subsection \<open>Deduplication\<close>

lemma AddItems_skip_candidate:
  assumes "Lock (mu s) \<noteq> None" and "ID c \<in> set (map ID (bucket_items s feedURL))"
  shows "bucket_items (fst (snd (AddItems os clk feedURL (pre @ c # post) s fs))) feedURL =
         bucket_items (fst (snd (AddItems os clk feedURL (pre @ post) s fs))) feedURL"
  by (simp only: AddItems_items [OF assms(1)] add_new_skip [OF assms(2)])

lemma AddItems_only_existing:
  assumes "Lock (mu s) \<noteq> None" and "ID ` set new \<subseteq> set (map ID (bucket_items s feedURL))"
    and "maxAge s \<le> 0"
  shows "bucket_items (fst (snd (AddItems os clk feedURL new s fs))) feedURL =
         sort_key Published (bucket_items s feedURL)"
proof -
  have "add_new (set (map ID (bucket_items s feedURL))) new [] = []"
    by (rule add_new_all_existing [OF assms(2)])
  then show ?thesis
    unfolding AddItems_items [OF assms(1)] using assms(3) by simp
qed

text \<open>
  A candidate whose id is in the bucket does not always leave the bucket as it was: with
  \<open>maxAge\<close> = 10 and \<open>now\<close> = 100 the stored record, published at 0, is removed by the
  age cleanup of the same call.
\<close>

theorem AddItems_existing_id_removed_by_age:
  "ID (example_item ''a'' 0) \<in> set (map ID (bucket_items (example_store 10 [example_item ''a'' 0]) ''src''))
   \<and> bucket_items (example_store 10 [example_item ''a'' 0]) ''src'' = [example_item ''a'' 0]
   \<and> bucket_items (fst (snd (AddItems example_os (example_clock 100) ''src''
         [example_item ''a'' 0] (example_store 10 [example_item ''a'' 0]) Map.empty))) ''src'' = []"
  by (simp add: AddItems_items example_store_free example_store_items example_store_maxAge example_item_sel
        example_clock_sel)

text \<open>
  C4, as the code has it. In a call that gets the write lock, a candidate whose id is in
  the bucket is skipped: the call leaves the same items as the call without that candidate.
  When every candidate is such a one and \<open>maxAge <= 0\<close>, the bucket keeps its length
  and its records, the record stored for each id among them; they are stably sorted, so
  a bucket that was in ascending order is unchanged. Ids that are unique in the bucket
  stay unique.
\<close>

theorem AddItems_skips_existing_ids:
  "Lock (mu s) \<noteq> None \<longrightarrow>
     (ID c \<in> set (map ID (bucket_items s feedURL)) \<longrightarrow>
        bucket_items (fst (snd (AddItems os clk feedURL (pre @ c # post) s fs))) feedURL =
        bucket_items (fst (snd (AddItems os clk feedURL (pre @ post) s fs))) feedURL)
     \<and> (ID ` set new \<subseteq> set (map ID (bucket_items s feedURL)) \<and> maxAge s \<le> 0 \<longrightarrow>
          bucket_items (fst (snd (AddItems os clk feedURL new s fs))) feedURL =
            sort_key Published (bucket_items s feedURL)
          \<and> length (bucket_items (fst (snd (AddItems os clk feedURL new s fs))) feedURL) =
              length (bucket_items s feedURL)
          \<and> set (bucket_items (fst (snd (AddItems os clk feedURL new s fs))) feedURL) =
              set (bucket_items s feedURL)
          \<and> (ascending (bucket_items s feedURL) \<longrightarrow>
               bucket_items (fst (snd (AddItems os clk feedURL new s fs))) feedURL = bucket_items s feedURL))
     \<and> (distinct (map ID (bucket_items s feedURL)) \<longrightarrow>
          distinct (map ID (bucket_items (fst (snd (AddItems os clk feedURL new s fs))) feedURL)))"
proof (intro impI conjI)
  assume free: "Lock (mu s) \<noteq> None"
  {
    assume "ID c \<in> set (map ID (bucket_items s feedURL))"
    then show "bucket_items (fst (snd (AddItems os clk feedURL (pre @ c # post) s fs))) feedURL =
        bucket_items (fst (snd (AddItems os clk feedURL (pre @ post) s fs))) feedURL"
      by (rule AddItems_skip_candidate [OF free])
  }
  {
    assume "distinct (map ID (bucket_items s feedURL))"
    then show "distinct (map ID (bucket_items (fst (snd (AddItems os clk feedURL new s fs))) feedURL))"
      by (rule AddItems_distinct_ids [OF free])
  }
  assume "ID ` set new \<subseteq> set (map ID (bucket_items s feedURL)) \<and> maxAge s \<le> 0"
  then have eq: "bucket_items (fst (snd (AddItems os clk feedURL new s fs))) feedURL =
         sort_key Published (bucket_items s feedURL)"
    using AddItems_only_existing [OF free] by blast
  show "bucket_items (fst (snd (AddItems os clk feedURL new s fs))) feedURL =
         sort_key Published (bucket_items s feedURL)"
    by (rule eq)
  show "length (bucket_items (fst (snd (AddItems os clk feedURL new s fs))) feedURL) =
              length (bucket_items s feedURL)"
    by (simp add: eq)
  show "set (bucket_items (fst (snd (AddItems os clk feedURL new s fs))) feedURL) =
              set (bucket_items s feedURL)"
    by (simp add: eq)
  assume "ascending (bucket_items s feedURL)"
  then show "bucket_items (fst (snd (AddItems os clk feedURL new s fs))) feedURL = bucket_items s feedURL"
    by (simp add: eq ascending_sorted sort_key_id_if_sorted)
qed

text \<open>
  The theorem at a bucket holding \<open>a\<close> and \<open>b\<close>, to which a record with the id of
  \<open>a\<close> and another \<open>published\<close> value is added.
\<close>

theorem AddItems_skips_existing_ids_witness:
  "Lock (mu (example_store 0 [example_item ''a'' 1, example_item ''b'' 2])) \<noteq> None
   \<and> ID (example_item ''a'' 5) \<in> set (map ID (bucket_items (example_store 0 [example_item ''a'' 1, example_item ''b'' 2]) ''src''))
   \<and> maxAge (example_store 0 [example_item ''a'' 1, example_item ''b'' 2]) \<le> 0
   \<and> distinct (map ID (bucket_items (example_store 0 [example_item ''a'' 1, example_item ''b'' 2]) ''src''))
   \<and> ascending (bucket_items (example_store 0 [example_item ''a'' 1, example_item ''b'' 2]) ''src'')
   \<and> bucket_items (fst (snd (AddItems example_os (example_clock 100) ''src'' [example_item ''a'' 5]
         (example_store 0 [example_item ''a'' 1, example_item ''b'' 2]) Map.empty))) ''src''
       = [example_item ''a'' 1, example_item ''b'' 2]
   \<and> distinct (map ID (bucket_items (fst (snd (AddItems example_os (example_clock 100) ''src'' [example_item ''a'' 5]
         (example_store 0 [example_item ''a'' 1, example_item ''b'' 2]) Map.empty))) ''src''))"
proof -
  let ?s = "example_store 0 [example_item ''a'' 1, example_item ''b'' 2]"
  let ?new = "[example_item ''a'' 5]"
  have h1: "Lock (mu ?s) \<noteq> None" by (rule example_store_free)
  have h2: "ID (example_item ''a'' 5) \<in> set (map ID (bucket_items ?s ''src''))"
    by (simp add: example_store_items example_item_sel)
  have h3: "ID ` set ?new \<subseteq> set (map ID (bucket_items ?s ''src'')) \<and> maxAge ?s \<le> 0"
    by (simp add: example_store_items example_item_sel example_store_maxAge)
  have h4: "distinct (map ID (bucket_items ?s ''src''))"
    by (simp add: example_store_items example_item_sel)
  note inst = AddItems_skips_existing_ids [where s = ?s and os = example_os and clk = "example_clock 100"
      and feedURL = "''src''" and new = ?new and fs = Map.empty]
  have h5: "ascending (bucket_items ?s ''src'')"
    by (simp add: example_store_items example_item_sel)
  have "bucket_items (fst (snd (AddItems example_os (example_clock 100) ''src'' ?new ?s Map.empty))) ''src''
          = bucket_items ?s ''src''"
    using inst h1 h3 h5 by blast
  then have c1: "bucket_items (fst (snd (AddItems example_os (example_clock 100) ''src'' ?new ?s Map.empty))) ''src''
          = [example_item ''a'' 1, example_item ''b'' 2]"
    by (simp add: example_store_items)
  have c2: "distinct (map ID (bucket_items (fst (snd (AddItems example_os (example_clock 100) ''src'' ?new ?s Map.empty))) ''src''))"
    using inst h1 h4 by blast
  show ?thesis
    using h1 h2 h3 h4 h5 c1 c2 by blast
qed

section \<open>Loading and saving\<close>

lemma Lock_unlocked: "Lock unlocked = Some (unlocked\<lparr>writer := True\<rparr>)"
  by (simp add: Lock_def unlocked_def)

lemma Unlock_Lock_unlocked: "Unlock (unlocked\<lparr>writer := True\<rparr>) = unlocked"
  by (simp add: Unlock_def unlocked_def)

lemma NewPersistentStore_missing:
  "fs p = None \<Longrightarrow>
   NewPersistentStore os fs p age = Returned (Inr \<lparr>mu = unlocked, feeds = Map.empty, path = p, maxAge = age\<rparr>)"
  by (simp add: NewPersistentStore_def load_def Lock_unlocked Unlock_Lock_unlocked)

lemma NewPersistentStore_unreadable:
  "fs p = Some (Unreadable e) \<Longrightarrow> NewPersistentStore os fs p age = Returned (Inl e)"
  by (simp add: NewPersistentStore_def load_def Lock_unlocked)

lemma NewPersistentStore_data:
  "fs p = Some (Data d) \<Longrightarrow>
   NewPersistentStore os fs p age =
     (case unmarshalFeeds os d Map.empty of
        (Some e, m) \<Rightarrow> Returned (Inl e)
      | (None, m) \<Rightarrow> Returned (Inr \<lparr>mu = unlocked, feeds = m, path = p, maxAge = age\<rparr>))"
  by (simp add: NewPersistentStore_def load_def Lock_unlocked Unlock_Lock_unlocked
        split: prod.splits option.splits)

text \<open>
  A file that \<open>json.Unmarshal\<close> rejects makes \<open>NewPersistentStore\<close> return the error
  and no store.
\<close>

theorem NewPersistentStore_fails_on_corrupt_file:
  "NewPersistentStore example_os [''feeds.json'' \<mapsto> Data ''{corrupt''] ''feeds.json'' 0 =
     Returned (Inl (Err ''invalid character''))"
  by (simp add: NewPersistentStore_data example_os_def)

text \<open>
  C2, as the code has it. When the file is missing, \<open>NewPersistentStore\<close> returns an
  empty store and no error. When the file holds data that \<open>json.Unmarshal\<close> rejects,
  \<open>load\<close> returns the error of \<open>json.Unmarshal\<close> and \<open>NewPersistentStore\<close> returns
  it in place of a store.
\<close>

theorem NewPersistentStore_missing_or_corrupt:
  "(fs p = None \<longrightarrow>
      NewPersistentStore os fs p age =
        Returned (Inr \<lparr>mu = unlocked, feeds = Map.empty, path = p, maxAge = age\<rparr>))
   \<and> (fs p = Some (Data d) \<and> fst (unmarshalFeeds os d Map.empty) = Some e \<longrightarrow>
        NewPersistentStore os fs p age = Returned (Inl e))"
  by (auto simp: NewPersistentStore_missing NewPersistentStore_data split: prod.splits)

text \<open>The theorem at a file system without the file, and at one whose file is not JSON.\<close>

theorem NewPersistentStore_missing_or_corrupt_witness:
  "(Map.empty :: filesys) ''feeds.json'' = None
   \<and> NewPersistentStore example_os Map.empty ''feeds.json'' 0 =
        Returned (Inr \<lparr>mu = unlocked, feeds = Map.empty, path = ''feeds.json'', maxAge = 0\<rparr>)
   \<and> [''feeds.json'' \<mapsto> Data ''{corrupt''] ''feeds.json'' = Some (Data ''{corrupt'')
   \<and> fst (unmarshalFeeds example_os ''{corrupt'' Map.empty) = Some (Err ''invalid character'')
   \<and> NewPersistentStore example_os [''feeds.json'' \<mapsto> Data ''{corrupt''] ''feeds.json'' 0 =
        Returned (Inl (Err ''invalid character''))"
proof -
  have h1: "(Map.empty :: filesys) ''feeds.json'' = None" by simp
  have h2: "[''feeds.json'' \<mapsto> Data ''{corrupt''] ''feeds.json'' = Some (Data ''{corrupt'')
            \<and> fst (unmarshalFeeds example_os ''{corrupt'' Map.empty) = Some (Err ''invalid character'')"
    by (simp add: example_os_def)
  have c1: "NewPersistentStore example_os Map.empty ''feeds.json'' 0 =
        Returned (Inr \<lparr>mu = unlocked, feeds = Map.empty, path = ''feeds.json'', maxAge = 0\<rparr>)"
    using NewPersistentStore_missing_or_corrupt [where fs = Map.empty and p = "''feeds.json''"
        and os = example_os and age = 0] h1 by blast
  have c2: "NewPersistentStore example_os [''feeds.json'' \<mapsto> Data ''{corrupt''] ''feeds.json'' 0 =
        Returned (Inl (Err ''invalid character''))"
    using NewPersistentStore_missing_or_corrupt [where fs = "[''feeds.json'' \<mapsto> Data ''{corrupt'']"
        and p = "''feeds.json''" and os = example_os and age = 0 and d = "''{corrupt''"
        and e = "Err ''invalid character''"] h2 by blast
  show ?thesis using h1 h2 c1 c2 by blast
qed

lemma save_Returned_None:
  assumes "save os s fs = (Returned None, s', fs')"
  shows "\<exists>d. marshalFeeds os (feeds s) = Inr d \<and> fs' (path s) = Some (Data d)"
  using assms
  by (auto simp: save_def Let_def split: option.splits sum.splits)

text \<open>
  C8. When \<open>save\<close> returns without an error, a store constructed from the file system
  it leaves, at the same path, has the same buckets: the same records in the same order
  in each. \<open>json.MarshalIndent\<close> and \<open>json.Unmarshal\<close> are library code; what is
  assumed of them is that decoding the bytes written for this store's buckets into an
  empty map succeeds and gives these buckets back.
\<close>

theorem save_then_load_roundtrip:
  "save os s fs = (Returned None, s', fs')
   \<and> (\<forall>d. marshalFeeds os (feeds s) = Inr d \<longrightarrow> unmarshalFeeds os d Map.empty = (None, feeds s))
   \<longrightarrow> NewPersistentStore os fs' (path s) age =
         Returned (Inr \<lparr>mu = unlocked, feeds = feeds s, path = path s, maxAge = age\<rparr>)"
proof
  assume a: "save os s fs = (Returned None, s', fs')
   \<and> (\<forall>d. marshalFeeds os (feeds s) = Inr d \<longrightarrow> unmarshalFeeds os d Map.empty = (None, feeds s))"
  then obtain d where d: "marshalFeeds os (feeds s) = Inr d" "fs' (path s) = Some (Data d)"
    using save_Returned_None by blast
  with a have "unmarshalFeeds os d Map.empty = (None, feeds s)" by blast
  then show "NewPersistentStore os fs' (path s) age =
         Returned (Inr \<lparr>mu = unlocked, feeds = feeds s, path = path s, maxAge = age\<rparr>)"
    using NewPersistentStore_data [where fs = fs' and p = "path s" and d = d and os = os and age = age] d(2)
    by simp
qed

text \<open>
  The theorem at a store with one bucket of two records, an empty file system and a codec
  that gives this bucket back.
\<close>

theorem save_then_load_roundtrip_witness:
  "fst (save (example_os\<lparr>marshalFeeds := (\<lambda>m. Inr ''saved''),
                         unmarshalFeeds := (\<lambda>data m. (None, m ++ [''src'' \<mapsto> example_bucket [example_item ''a'' 1, example_item ''b'' 2]]))\<rparr>)
         (example_store 0 [example_item ''a'' 1, example_item ''b'' 2]) Map.empty) = Returned None
   \<and> NewPersistentStore
         (example_os\<lparr>marshalFeeds := (\<lambda>m. Inr ''saved''),
                      unmarshalFeeds := (\<lambda>data m. (None, m ++ [''src'' \<mapsto> example_bucket [example_item ''a'' 1, example_item ''b'' 2]]))\<rparr>)
         (snd (snd (save (example_os\<lparr>marshalFeeds := (\<lambda>m. Inr ''saved''),
                         unmarshalFeeds := (\<lambda>data m. (None, m ++ [''src'' \<mapsto> example_bucket [example_item ''a'' 1, example_item ''b'' 2]]))\<rparr>)
            (example_store 0 [example_item ''a'' 1, example_item ''b'' 2]) Map.empty)))
         ''feeds.json'' 0
       = Returned (Inr (example_store 0 [example_item ''a'' 1, example_item ''b'' 2]))"
proof -
  let ?os = "example_os\<lparr>marshalFeeds := (\<lambda>m. Inr ''saved''),
                         unmarshalFeeds := (\<lambda>data m. (None, m ++ [''src'' \<mapsto> example_bucket [example_item ''a'' 1, example_item ''b'' 2]]))\<rparr>"
  let ?s = "example_store 0 [example_item ''a'' 1, example_item ''b'' 2]"
  have r: "RLock (mu ?s) = Some (unlocked\<lparr>readers := Suc 0\<rparr>)"
    by (simp add: RLock_def example_store_def unlocked_def)
  have h1: "fst (save ?os ?s Map.empty) = Returned None"
    by (simp add: save_def r example_os_def)
  then have h1': "save ?os ?s Map.empty = (Returned None, fst (snd (save ?os ?s Map.empty)), snd (snd (save ?os ?s Map.empty)))"
    by (metis prod.collapse)
  have h2: "\<forall>d. marshalFeeds ?os (feeds ?s) = Inr d \<longrightarrow> unmarshalFeeds ?os d Map.empty = (None, feeds ?s)"
    by (simp add: example_store_def)
  have "NewPersistentStore ?os (snd (snd (save ?os ?s Map.empty))) (path ?s) 0 =
         Returned (Inr \<lparr>mu = unlocked, feeds = feeds ?s, path = path ?s, maxAge = 0\<rparr>)"
    using save_then_load_roundtrip [where os = ?os and s = ?s and fs = Map.empty
        and s' = "fst (snd (save ?os ?s Map.empty))" and fs' = "snd (snd (save ?os ?s Map.empty))" and age = 0]
      h1' h2 by blast
  moreover have "\<lparr>mu = unlocked, feeds = feeds ?s, path = path ?s, maxAge = 0\<rparr> = ?s"
    by (simp add: example_store_def)
  moreover have "path ?s = ''feeds.json''"
    by (simp add: example_store_def)
  ultimately show ?thesis using h1 by simp
qed

section \<open>FeedStore: updating and fetching\<close>

lemma truncatePerFeed_fmu: "truncatePerFeed os s = Some s' \<Longrightarrow> fmu s' = fmu s"
  by (auto simp: truncatePerFeed_def split: option.splits)

lemma FeedStore_save_waits: "writer (fmu s) \<Longrightarrow> FeedStore_save os s fs = (Blocked, s, fs)"
  by (simp add: FeedStore_save_def RLock_def)

lemma Lock_writer: "Lock m = Some m' \<Longrightarrow> writer m'"
  by (auto simp: Lock_def split: if_splits)

lemma Add_never_returns: "fst (Add os new s fs) \<noteq> Returned r"
proof (cases "Lock (fmu s)")
  case None
  then show ?thesis by (simp add: Add_def)
next
  case (Some m)
  let ?s1 = "s\<lparr>fmu := m, items := sort_published (add_new (set (map ID (items s))) new (items s))\<rparr>"
  show ?thesis
  proof (cases "truncatePerFeed os ?s1")
    case None
    with Some show ?thesis by (simp add: Add_def)
  next
    case s2: (Some s2)
    then have w: "writer (fmu s2)"
      using truncatePerFeed_fmu [OF s2] Lock_writer [OF Some] by simp
    show ?thesis
    proof (cases "keep_latest (maxItems s2 * int (length (uniqueFeeds s2))) (items s2)")
      case None
      with Some s2 show ?thesis by (simp add: Add_def)
    next
      case kept: (Some kept)
      have "FeedStore_save os (s2\<lparr>items := kept\<rparr>) fs = (Blocked, s2\<lparr>items := kept\<rparr>, fs)"
        using w by (simp add: FeedStore_save_waits)
      with Some s2 kept show ?thesis by (simp add: Add_def)
    qed
  qed
qed

lemma UpdateFeed_never_counts: "fst (UpdateFeed os now url s fs) \<noteq> Returned (Inr n)"
proof (cases "fetchFeed os url")
  case (Inl e)
  then show ?thesis by (simp add: UpdateFeed_def)
next
  case (Inr new)
  obtain out s' fs' where a: "Add os new s fs = (out, s', fs')"
    by (cases "Add os new s fs") auto
  then have "out \<noteq> Returned None"
    using Add_never_returns [of os new s fs None] by simp
  then show ?thesis
    using Inr a by (cases out) (auto simp: UpdateFeed_def split: option.splits)
qed

lemma example_sys_sel:
  "fetchFeed example_sys = example_fetch" "range_order example_sys = (\<lambda>keys. keys)"
  by (simp_all add: example_sys_def example_os_def)

lemma Add_a_again:
  "Add example_sys [example_item ''a'' 1] (example_feedstore [example_item ''a'' 1]) Map.empty =
     (Blocked, (example_feedstore [example_item ''a'' 1])\<lparr>fmu := unlocked\<lparr>writer := True\<rparr>\<rparr>, Map.empty)"
  by (simp add: Add_def example_feedstore_def Lock_unlocked truncatePerFeed_def keep_latest_def
        sort_published_def uniqueFeeds_def FeedStore_save_def RLock_def example_sys_sel
        example_item_def)

text \<open>
  C3. \<open>UpdateFeed\<close> never reports a count: after a fetch that succeeds, \<open>Add\<close> takes
  the write lock and \<open>save\<close> waits for the read lock of the same \<open>RWMutex\<close>. So it is
  for a store that holds the record \<open>a\<close> and a source whose payload is that one record:
  no record is new, the call does not return, and nothing is written.
\<close>

theorem UpdateFeed_reports_no_count:
  "fst (UpdateFeed os now url s fs) \<noteq> Returned (Inr n)
   \<and> UpdateFeed example_sys 100 ''https://one.example/feed'' (example_feedstore [example_item ''a'' 1]) Map.empty =
       (Blocked, (example_feedstore [example_item ''a'' 1])\<lparr>fmu := unlocked\<lparr>writer := True\<rparr>\<rparr>, Map.empty)"
proof
  show "fst (UpdateFeed os now url s fs) \<noteq> Returned (Inr n)"
    by (rule UpdateFeed_never_counts)
  have "fetchFeed example_sys ''https://one.example/feed'' = Inr [example_item ''a'' 1]"
    by (simp add: example_sys_sel example_fetch_def)
  then show "UpdateFeed example_sys 100 ''https://one.example/feed'' (example_feedstore [example_item ''a'' 1]) Map.empty =
       (Blocked, (example_feedstore [example_item ''a'' 1])\<lparr>fmu := unlocked\<lparr>writer := True\<rparr>\<rparr>, Map.empty)"
    by (simp add: UpdateFeed_def Add_a_again)
qed

lemma fetch_task_keeps_stuck:
  "crashed r \<or> 0 < stuck r \<Longrightarrow> crashed (fetch_task os now u r) \<or> 0 < stuck (fetch_task os now u r)"
  by (auto simp: fetch_task_def Let_def split: prod.splits outcome.splits sum.splits)

lemma fetch_task_stuck_after_fetch:
  assumes "fetchFeed os u = Inr new"
  shows "crashed (fetch_task os now u r) \<or> 0 < stuck (fetch_task os now u r)"
proof -
  obtain out s' fs' where a: "Add os new (store (fetcher r)) (disk r) = (out, s', fs')"
    by (cases "Add os new (store (fetcher r)) (disk r)") auto
  then have "out = Blocked \<or> out = Panicked"
    using Add_never_returns [of os new "store (fetcher r)" "disk r"] by (cases out) auto
  then show ?thesis
    using assms a by (auto simp: fetch_task_def UpdateFeed_def Let_def)
qed

lemma fold_fetch_task_keeps_stuck:
  "crashed r \<or> 0 < stuck r \<Longrightarrow>
   crashed (fold (fetch_task os now) urls r) \<or> 0 < stuck (fold (fetch_task os now) urls r)"
proof (induction urls arbitrary: r)
  case Nil
  then show ?case by simp
next
  case (Cons u urls)
  show ?case
    using Cons.IH [OF fetch_task_keeps_stuck [OF Cons.prems]] by simp
qed

lemma fold_fetch_task_stuck:
  "u \<in> set urls \<Longrightarrow> fetchFeed os u = Inr new \<Longrightarrow>
   crashed (fold (fetch_task os now) urls r) \<or> 0 < stuck (fold (fetch_task os now) urls r)"
proof (induction urls arbitrary: r)
  case Nil
  then show ?case by simp
next
  case (Cons v urls)
  show ?case
  proof (cases "v = u")
    case True
    then show ?thesis
      using fold_fetch_task_keeps_stuck [OF fetch_task_stuck_after_fetch [OF Cons.prems(2)]] by simp
  next
    case False
    then have "u \<in> set urls" using Cons.prems(1) by simp
    then show ?thesis using Cons.IH [OF _ Cons.prems(2)] by simp
  qed
qed

lemma FetchAll_never_returns_after_a_fetch:
  "u \<in> set urls \<Longrightarrow> fetchFeed os u = Inr new \<Longrightarrow> fst (FetchAll os now urls f fs) \<noteq> Returned r"
  using fold_fetch_task_stuck [of u urls os new now "\<lparr>fetcher = f, disk = fs, errs = [], stuck = 0, crashed = False\<rparr>"]
  by (auto simp: FetchAll_def Let_def)

lemma Add_a_first:
  "Add example_sys [example_item ''a'' 1] (example_feedstore []) Map.empty =
     (Blocked, (example_feedstore [example_item ''a'' 1])\<lparr>fmu := unlocked\<lparr>writer := True\<rparr>\<rparr>, Map.empty)"
  by (simp add: Add_def example_feedstore_def Lock_unlocked truncatePerFeed_def keep_latest_def
        sort_published_def uniqueFeeds_def FeedStore_save_def RLock_def example_sys_sel
        example_item_def)

lemma Add_b_waits:
  "Add example_sys new ((example_feedstore xs)\<lparr>fmu := unlocked\<lparr>writer := True\<rparr>\<rparr>) fs =
     (Blocked, (example_feedstore xs)\<lparr>fmu := unlocked\<lparr>writer := True\<rparr>\<rparr>, fs)"
  by (simp add: Add_def Lock_def)

text \<open>
  C9. Three sources, the second of which fails. The goroutine of the first source adds
  its record to \<open>items\<close> and then waits in \<open>save\<close>, holding the write lock; the
  goroutine of the third waits for that lock and its record is never added. \<open>wg.Wait()\<close>
  does not return, so \<open>FetchAll\<close> returns no error to its caller, and no file is written.
\<close>

theorem FetchAll_waits_after_first_store:
  "fst (FetchAll example_sys (\<lambda>url. 100)
          [''https://one.example/feed'', ''https://two.example/feed'', ''https://three.example/feed'']
          (NewFetcher (example_feedstore [])) Map.empty) = Blocked
   \<and> items (store (fst (snd (FetchAll example_sys (\<lambda>url. 100)
          [''https://one.example/feed'', ''https://two.example/feed'', ''https://three.example/feed'']
          (NewFetcher (example_feedstore [])) Map.empty)))) = [example_item ''a'' 1]
   \<and> snd (snd (FetchAll example_sys (\<lambda>url. 100)
          [''https://one.example/feed'', ''https://two.example/feed'', ''https://three.example/feed'']
          (NewFetcher (example_feedstore [])) Map.empty)) = Map.empty"
proof -
  have f: "fetchFeed example_sys ''https://one.example/feed'' = Inr [example_item ''a'' 1]"
    "fetchFeed example_sys ''https://two.example/feed'' = Inl (Err ''HTTP 500'')"
    "fetchFeed example_sys ''https://three.example/feed'' = Inr [example_item ''b'' 2]"
    by (simp_all add: example_sys_sel example_fetch_def)
  have "fold (fetch_task example_sys (\<lambda>url. 100))
          [''https://one.example/feed'', ''https://two.example/feed'', ''https://three.example/feed'']
          \<lparr>fetcher = NewFetcher (example_feedstore []), disk = Map.empty, errs = [], stuck = 0, crashed = False\<rparr>
        = \<lparr>fetcher = \<lparr>store = (example_feedstore [example_item ''a'' 1])\<lparr>fmu := unlocked\<lparr>writer := True\<rparr>\<rparr>,
                       sem = 2, sem_cap = 5, stats = Map.empty\<rparr>,
           disk = Map.empty, errs = [Wrap ''https://two.example/feed'' (Err ''HTTP 500'')], stuck = 2, crashed = False\<rparr>"
    by (simp add: fetch_task_def UpdateFeed_def f NewFetcher_def Add_a_first Add_b_waits)
  then show ?thesis
    by (simp add: FetchAll_def example_feedstore_def)
qed

end
